theory Spec2Isabelle
  imports Main
begin

section \<open>Values, dictionaries and errors\<close>

text \<open>
  Every timestamp of the program is the string \<^verbatim>\<open>datetime.now(timezone.utc).isoformat()\<close>,
  or such an instant plus a \<^verbatim>\<open>timedelta\<close>, printed the same way. SQLite compares these
  strings byte by byte. For UTC instants of the years 1 to 9999 that order is the order of
  the instants (the fields are zero padded, and a string without a fraction ends its seconds
  with \<^verbatim>\<open>+\<close>, which is below \<^verbatim>\<open>.\<close>). A timestamp is therefore modelled by the instant it
  prints: the number of microseconds since 0001-01-01T00:00:00 UTC.
\<close>

type_synonym timestamp = int

text \<open>The values a job attribute or a column of table \<^verbatim>\<open>jobs\<close> holds.\<close>

datatype pyval = VStr string | VInt int | VTime timestamp | VNone

type_synonym pydict = "string \<rightharpoonup> pyval"

text \<open>
  The exceptions of the modelled paths. \<open>IllTyped\<close> is not a Python exception: the record
  below is typed as the table declares its columns, Python builds an object around any value,
  and a dictionary that holds a value of another type has no counterpart in the record.
  No dictionary made by \<^verbatim>\<open>to_dict\<close> or read from a table row is of that kind.
\<close>

datatype py_error = TypeError | KeyError | OverflowError | IllTyped

fun bind_r :: "'e + 'a \<Rightarrow> ('a \<Rightarrow> 'e + 'b) \<Rightarrow> 'e + 'b" where
  "bind_r (Inl e) f = Inl e"
| "bind_r (Inr x) f = f x"

fun as_str :: "pyval \<Rightarrow> py_error + string" where
  "as_str (VStr s) = Inr s"
| "as_str _ = Inl IllTyped"

fun as_int :: "pyval \<Rightarrow> py_error + int" where
  "as_int (VInt n) = Inr n"
| "as_int _ = Inl IllTyped"

fun as_nat :: "pyval \<Rightarrow> py_error + nat" where
  "as_nat (VInt n) = (if 0 \<le> n then Inr (nat n) else Inl IllTyped)"
| "as_nat _ = Inl IllTyped"

fun as_time :: "pyval \<Rightarrow> py_error + timestamp" where
  "as_time (VTime t) = Inr t"
| "as_time _ = Inl IllTyped"

fun as_opt_time :: "pyval \<Rightarrow> py_error + timestamp option" where
  "as_opt_time (VTime t) = Inr (Some t)"
| "as_opt_time VNone = Inr None"
| "as_opt_time _ = Inl IllTyped"

text \<open>\<^verbatim>\<open>d.get(k, default)\<close>, \<^verbatim>\<open>d[k]\<close> and \<^verbatim>\<open>d.pop(k)\<close>.\<close>

definition dict_get :: "pydict \<Rightarrow> string \<Rightarrow> pyval \<Rightarrow> pyval" where
  "dict_get d k dflt = (case d k of None \<Rightarrow> dflt | Some v \<Rightarrow> v)"

definition dict_item :: "pydict \<Rightarrow> string \<Rightarrow> py_error + pyval" where
  "dict_item d k = (case d k of None \<Rightarrow> Inl KeyError | Some v \<Rightarrow> Inr v)"

definition dict_pop :: "pydict \<Rightarrow> string \<Rightarrow> py_error + (pyval \<times> pydict)" where
  "dict_pop d k = (case d k of None \<Rightarrow> Inl KeyError | Some v \<Rightarrow> Inr (v, d(k := None)))"

section \<open>The job entity (job.py)\<close>

text \<open>
  \<open>attempts\<close> is a count: every job is created with 0 attempts, and the program only adds 1
  to it or resets it to 0. The attribute \<^verbatim>\<open>id\<close> is the field \<open>job_id\<close>.
\<close>

record Job =
  job_id :: string
  command :: string
  max_retries :: int
  state :: string
  attempts :: nat
  created_at :: timestamp
  updated_at :: timestamp
  retry_after_time :: "timestamp option"

text \<open>
  The body of \<^verbatim>\<open>Job.__init__(self, id, command, max_retries=3, **kwargs)\<close> once its
  parameters are bound. \<open>now\<close> is the clock reading \<^verbatim>\<open>now_iso\<close>.
\<close>

definition Job_init :: "timestamp \<Rightarrow> pyval \<Rightarrow> pyval \<Rightarrow> pyval \<Rightarrow> pydict \<Rightarrow> py_error + Job" where
  "Job_init now i c m kwargs =
     bind_r (as_str i) (\<lambda>i'.
     bind_r (as_str c) (\<lambda>c'.
     bind_r (as_int m) (\<lambda>m'.
     bind_r (as_str (dict_get kwargs ''state'' (VStr ''pending''))) (\<lambda>st.
     bind_r (as_nat (dict_get kwargs ''attempts'' (VInt 0))) (\<lambda>a.
     bind_r (as_time (dict_get kwargs ''created_at'' (VTime now))) (\<lambda>ca.
     bind_r (as_time (dict_get kwargs ''updated_at'' (VTime now))) (\<lambda>ua.
     bind_r (as_opt_time (dict_get kwargs ''retry_after_time'' VNone)) (\<lambda>ra.
       Inr \<lparr>job_id = i', command = c', max_retries = m', state = st, attempts = a,
            created_at = ca, updated_at = ua, retry_after_time = ra\<rparr>))))))))"

text \<open>
  The call \<^verbatim>\<open>Job(a, b, **kw)\<close>: two positional arguments and a dictionary of keyword
  arguments. The positional arguments bind \<^verbatim>\<open>id\<close> and \<^verbatim>\<open>command\<close>; a keyword that
  names a parameter bound already is a TypeError (multiple values for one argument); the
  keyword \<^verbatim>\<open>max_retries\<close> binds that parameter; every other keyword goes to \<^verbatim>\<open>kwargs\<close>.
\<close>

definition Job_call :: "timestamp \<Rightarrow> pyval \<Rightarrow> pyval \<Rightarrow> pydict \<Rightarrow> py_error + Job" where
  "Job_call now a b kw =
     (if kw ''self'' = None \<and> kw ''id'' = None \<and> kw ''command'' = None
      then Job_init now a b (dict_get kw ''max_retries'' (VInt 3)) (kw(''max_retries'' := None))
      else Inl TypeError)"

text \<open>\<^verbatim>\<open>to_dict\<close> returns the object's attribute dictionary.\<close>

definition to_dict :: "Job \<Rightarrow> pydict" where
  "to_dict j =
     [''id'' \<mapsto> VStr (job_id j),
      ''command'' \<mapsto> VStr (command j),
      ''max_retries'' \<mapsto> VInt (max_retries j),
      ''state'' \<mapsto> VStr (state j),
      ''attempts'' \<mapsto> VInt (int (attempts j)),
      ''created_at'' \<mapsto> VTime (created_at j),
      ''updated_at'' \<mapsto> VTime (updated_at j),
      ''retry_after_time'' \<mapsto> (case retry_after_time j of None \<Rightarrow> VNone | Some t \<Rightarrow> VTime t)]"

text \<open>\<^verbatim>\<open>return cls(data['id'], data['command'], **data)\<close>\<close>

definition from_dict :: "timestamp \<Rightarrow> pydict \<Rightarrow> py_error + Job" where
  "from_dict now data =
     bind_r (dict_item data ''id'') (\<lambda>i.
     bind_r (dict_item data ''command'') (\<lambda>c.
       Job_call now i c data))"

section \<open>The job store (storage.py)\<close>

text \<open>
  Table \<^verbatim>\<open>jobs\<close> is the list of its rows in insertion order; a row is a job record, its
  columns the attributes of the same names. The database is taken to work: no lock timeout
  and no I/O error.

  \<^verbatim>\<open>row_to_job\<close> takes the mapping of a fetched row (or \<^verbatim>\<open>None\<close>), copies it into
  a dictionary, pops \<^verbatim>\<open>id\<close> and \<^verbatim>\<open>command\<close> and passes the rest as keywords.
\<close>

definition row_to_job :: "timestamp \<Rightarrow> pydict option \<Rightarrow> py_error + Job option" where
  "row_to_job now row =
     (case row of
        None \<Rightarrow> Inr None
      | Some data \<Rightarrow>
          bind_r (dict_pop data ''id'') (\<lambda>(i, data1).
          bind_r (dict_pop data1 ''command'') (\<lambda>(c, data2).
          bind_r (Job_call now i c data2) (\<lambda>j. Inr (Some j)))))"

definition quote :: string where
  "quote = [CHR 0x27]"

text \<open>
  An SQLite INTEGER has 64 bits. Binding a Python integer outside that range as a parameter
  raises OverflowError before the statement runs.
\<close>

definition fits_int64 :: "int \<Rightarrow> bool" where
  "fits_int64 n \<longleftrightarrow> - (2 ^ 63) \<le> n \<and> n < 2 ^ 63"

text \<open>
  \<^verbatim>\<open>enqueue_job\<close>. The parameters are bound first: an integer that does not fit raises, the
  \<^verbatim>\<open>except\<close> branch rolls back and returns the failure with the exception's text.
  Then \<^verbatim>\<open>INSERT OR IGNORE\<close>: a row whose primary key \<^verbatim>\<open>id\<close> is in the table already is
  not inserted and the row count is 0.
\<close>

definition enqueue_job :: "Job \<Rightarrow> Job list \<Rightarrow> (bool \<times> string) \<times> Job list" where
  "enqueue_job job store =
     (if fits_int64 (int (attempts job)) \<and> fits_int64 (max_retries job)
      then
        (if job_id job \<in> job_id ` set store
         then ((False, ''Job with ID '' @ job_id job @ '' already exists.''), store)
         else ((True, ''Job '' @ job_id job @ '' added to queue in '' @ quote @ state job @ quote
                      @ '' state.''), store @ [job]))
      else ((False, ''Database error during enqueue: ''
                    @ ''Python int too large to convert to SQLite INTEGER''), store))"

text \<open>
  \<^verbatim>\<open>WHERE state = 'pending' AND (retry_after_time IS NULL OR retry_after_time <= ?)\<close>
\<close>

definition eligible :: "timestamp \<Rightarrow> Job \<Rightarrow> bool" where
  "eligible now r \<longleftrightarrow>
     state r = ''pending'' \<and> (case retry_after_time r of None \<Rightarrow> True | Some t \<Rightarrow> t \<le> now)"

text \<open>
  \<^verbatim>\<open>ORDER BY created_at ASC LIMIT 1\<close>: a row of least \<^verbatim>\<open>created_at\<close>; among equal ones SQL
  promises no order, the model takes the first inserted.
\<close>

fun oldest :: "Job list \<Rightarrow> Job option" where
  "oldest [] = None"
| "oldest (r # rs) =
     (case oldest rs of
        None \<Rightarrow> Some r
      | Some m \<Rightarrow> if created_at r \<le> created_at m then Some r else Some m)"

text \<open>\<^verbatim>\<open>UPDATE jobs SET state = ?, updated_at = ? WHERE id = ?\<close>\<close>

definition mark_row :: "Job \<Rightarrow> Job list \<Rightarrow> Job list" where
  "mark_row job store =
     map (\<lambda>r. if job_id r = job_id job
               then r\<lparr>state := state job, updated_at := updated_at job\<rparr> else r) store"

text \<open>
  \<^verbatim>\<open>pick_job_for_worker\<close>: the result and the table afterwards. An exception inside the
  \<^verbatim>\<open>try\<close> rolls back and gives \<^verbatim>\<open>None\<close>.
\<close>

definition pick_job_for_worker :: "timestamp \<Rightarrow> Job list \<Rightarrow> Job option \<times> Job list" where
  "pick_job_for_worker now store =
     (case oldest (filter (eligible now) store) of
        None \<Rightarrow> (None, store)
      | Some row \<Rightarrow>
          (case row_to_job now (Some (to_dict row)) of
             Inl e \<Rightarrow> (None, store)
           | Inr None \<Rightarrow> (None, store)
           | Inr (Some job) \<Rightarrow>
               (let job' = job\<lparr>state := ''processing'', updated_at := now\<rparr>
                in (Some job', mark_row job' store))))"

text \<open>
  \<^verbatim>\<open>update_job_state\<close> sets \<^verbatim>\<open>job.updated_at\<close> and runs
  \<^verbatim>\<open>UPDATE jobs SET state = ?, attempts = ?, updated_at = ?, retry_after_time = ? WHERE id = ?\<close>.
  It returns nothing; the model returns the job as mutated and the table.
\<close>

definition update_job_state :: "timestamp \<Rightarrow> Job \<Rightarrow> Job list \<Rightarrow> Job \<times> Job list" where
  "update_job_state now job store =
     (let job' = job\<lparr>updated_at := now\<rparr>
      in (job',
          map (\<lambda>r. if job_id r = job_id job'
                    then r\<lparr>state := state job', attempts := attempts job',
                           updated_at := updated_at job',
                           retry_after_time := retry_after_time job'\<rparr>
                    else r) store))"

text \<open>\<^verbatim>\<open>SELECT * FROM jobs WHERE id = ?\<close>, \<^verbatim>\<open>fetchone\<close>, \<^verbatim>\<open>row_to_job\<close>.\<close>

definition get_job_by_id :: "timestamp \<Rightarrow> string \<Rightarrow> Job list \<Rightarrow> py_error + Job option" where
  "get_job_by_id now i store =
     row_to_job now (map_option to_dict (find (\<lambda>r. job_id r = i) store))"

section \<open>The worker (worker.py)\<close>

text \<open>
  A \<^verbatim>\<open>datetime\<close> holds an instant from 0001-01-01T00:00:00 to 9999-12-31T23:59:59.999999:
  3652059 days. Adding a \<^verbatim>\<open>timedelta\<close> that leaves this range raises OverflowError.
\<close>

definition datetime_max :: timestamp where
  "datetime_max = 3652059 * 86400 * 1000000 - 1"

text \<open>
  \<^verbatim>\<open>t + timedelta(seconds=delay)\<close> for \<^verbatim>\<open>delay = math.pow(retry_base, attempts)\<close>, the
  delay given as the integer \<open>d\<close> it equals. \<^verbatim>\<open>math.pow\<close> computes in floating point and is
  taken to be exact where the power is a float (below \<open>2 ^ 53\<close> in size). A larger power, a
  power too large for a float or for a \<^verbatim>\<open>timedelta\<close>, and a sum outside the range of
  \<^verbatim>\<open>datetime\<close> all raise OverflowError, and all lie outside the range checked here.
\<close>

definition add_seconds :: "timestamp \<Rightarrow> int \<Rightarrow> py_error + timestamp" where
  "add_seconds t d =
     (let t' = t + d * 1000000
      in if 0 \<le> t' \<and> t' \<le> datetime_max then Inr t' else Inl OverflowError)"

text \<open>
  One clock reading \<open>now\<close> serves a whole call: the source reads the clock once in
  \<^verbatim>\<open>handle_failure\<close> and again, a few statements later, in \<^verbatim>\<open>update_job_state\<close>.
\<close>

definition handle_success :: "timestamp \<Rightarrow> Job \<Rightarrow> Job list \<Rightarrow> Job \<times> Job list" where
  "handle_success now job store =
     update_job_state now (job\<lparr>state := ''completed'', retry_after_time := None\<rparr>) store"

text \<open>
  \<^verbatim>\<open>handle_failure\<close> has changed \<^verbatim>\<open>job.attempts\<close> and \<^verbatim>\<open>job.state\<close> when the addition
  raises: the error comes with the job as it is then. Nothing is written to the table.
\<close>

definition handle_failure ::
    "int \<Rightarrow> timestamp \<Rightarrow> Job \<Rightarrow> Job list \<Rightarrow> (py_error \<times> Job) + (Job \<times> Job list)" where
  "handle_failure retry_base now job store =
     (let job1 = job\<lparr>attempts := attempts job + 1\<rparr>
      in if max_retries job1 \<le> int (attempts job1)
         then Inr (update_job_state now (job1\<lparr>state := ''dead'', retry_after_time := None\<rparr>) store)
         else
           (let job2 = job1\<lparr>state := ''pending''\<rparr>;
                delay = retry_base ^ attempts job2
            in case add_seconds now delay of
                 Inl e \<Rightarrow> Inl (e, job2)
               | Inr retry_time \<Rightarrow>
                   Inr (update_job_state now (job2\<lparr>retry_after_time := Some retry_time\<rparr>) store)))"

text \<open>
  What \<^verbatim>\<open>subprocess.run\<close> does is the environment's choice: it returns with an exit status or
  raises. Both handler calls for a returned command stand inside the \<^verbatim>\<open>try\<close>, so an exception
  of theirs reaches the \<^verbatim>\<open>except\<close> clause, which calls \<^verbatim>\<open>handle_failure\<close> on the same object.
  \<open>Inl\<close> is an exception leaving \<^verbatim>\<open>process_job\<close>, the table as it was.
\<close>

datatype outcome = Exited int | LaunchError

definition process_job ::
    "int \<Rightarrow> timestamp \<Rightarrow> outcome \<Rightarrow> Job \<Rightarrow> Job list \<Rightarrow> py_error + Job list" where
  "process_job retry_base now out job store =
     (case out of
        Exited returncode \<Rightarrow>
          if returncode = 0 then Inr (snd (handle_success now job store))
          else
            (case handle_failure retry_base now job store of
               Inr (job', store') \<Rightarrow> Inr store'
             | Inl (e, job') \<Rightarrow>
                 (case handle_failure retry_base now job' store of
                    Inr (job'', store') \<Rightarrow> Inr store'
                  | Inl (e', job'') \<Rightarrow> Inl e'))
      | LaunchError \<Rightarrow>
          (case handle_failure retry_base now job store of
             Inr (job', store') \<Rightarrow> Inr store'
           | Inl (e, job') \<Rightarrow> Inl e))"

section \<open>The commands (cli.py)\<close>

text \<open>
  \<^verbatim>\<open>enqueue\<close> after the JSON is parsed: \<open>i\<close>, \<open>c\<close> are \<^verbatim>\<open>data['id']\<close>, \<^verbatim>\<open>data['command']\<close> and
  \<open>m\<close> is \<^verbatim>\<open>data.get('max_retries')\<close>. The result is the line printed and the table.
\<close>

definition enqueue ::
    "timestamp \<Rightarrow> string \<Rightarrow> string \<Rightarrow> int option \<Rightarrow> Job list \<Rightarrow> py_error + (string \<times> Job list)" where
  "enqueue now i c m store =
     bind_r (Job_init now (VStr i) (VStr c) (VInt (case m of None \<Rightarrow> 3 | Some k \<Rightarrow> k)) Map.empty)
       (\<lambda>job. case enqueue_job job store of
                 ((success, message), store') \<Rightarrow>
                   Inr (if success then message else ''Error: '' @ message, store'))"

text \<open>\<^verbatim>\<open>dlq retry\<close>: the line printed and the table.\<close>

definition retry :: "timestamp \<Rightarrow> string \<Rightarrow> Job list \<Rightarrow> py_error + (string \<times> Job list)" where
  "retry now i store =
     bind_r (get_job_by_id now i store)
       (\<lambda>found. case found of
          None \<Rightarrow> Inr (''Error: Job ID '' @ quote @ i @ quote @ '' not found.'', store)
        | Some job \<Rightarrow>
            if state job \<noteq> ''dead''
            then Inr (''Error: Job '' @ quote @ i @ quote @ '' is in state '' @ quote @ state job
                       @ quote @ '', not '' @ quote @ ''dead'' @ quote @ ''.'', store)
            else Inr (''Job '' @ i @ '' moved from DLQ to '' @ quote @ ''pending'' @ quote
                       @ '' queue for retry.'',
                      snd (update_job_state now
                             (job\<lparr>state := ''pending'', attempts := 0, retry_after_time := None\<rparr>)
                             store)))"

section \<open>The system: a table and the jobs workers hold\<close>

text \<open>
  Between \<^verbatim>\<open>pick_job_for_worker\<close> and \<^verbatim>\<open>process_job\<close> a worker runs the command and holds
  the job object; other processes go on meanwhile. A system state is the table and the jobs
  held; an event is one call of a public operation. \<open>Finish\<close> names the held job by its id
  and carries the worker's \<^verbatim>\<open>retry_base\<close> and the command's outcome. A worker whose
  \<^verbatim>\<open>process_job\<close> raises is gone, and its job with it.
\<close>

datatype event =
    Enqueue timestamp string string "int option"
  | Claim timestamp
  | Finish int timestamp outcome string
  | Requeue timestamp string

fun step :: "Job list \<times> Job list \<Rightarrow> event \<Rightarrow> Job list \<times> Job list" where
  "step (store, held) (Enqueue now i c m) =
     (case enqueue now i c m store of Inl e \<Rightarrow> (store, held) | Inr (line, store') \<Rightarrow> (store', held))"
| "step (store, held) (Claim now) =
     (case pick_job_for_worker now store of
        (None, store') \<Rightarrow> (store', held)
      | (Some job, store') \<Rightarrow> (store', job # held))"
| "step (store, held) (Finish retry_base now out i) =
     (case find (\<lambda>j. job_id j = i) held of
        None \<Rightarrow> (store, held)
      | Some job \<Rightarrow>
          (case process_job retry_base now out job store of
             Inl e \<Rightarrow> (store, remove1 job held)
           | Inr store' \<Rightarrow> (store', remove1 job held)))"
| "step (store, held) (Requeue now i) =
     (case retry now i store of Inl e \<Rightarrow> (store, held) | Inr (line, store') \<Rightarrow> (store', held))"

definition run :: "event list \<Rightarrow> Job list \<times> Job list" where
  "run evs = foldl step ([], []) evs"

text \<open>The spec's input contract for enqueue: \<^verbatim>\<open>max_retries\<close> is a positive integer.\<close>

fun valid_event :: "event \<Rightarrow> bool" where
  "valid_event (Enqueue now i c (Some m)) = (1 \<le> m)"
| "valid_event _ = True"

section \<open>Invariants of the system\<close>

text \<open>
  \<open>settled job job'\<close>: what \<^verbatim>\<open>process_job\<close> hands to \<^verbatim>\<open>update_job_state\<close> for a held
  \<open>job\<close>: the same id and limit, and either completed with the count as it was, or dead
  with the count raised to the limit (by one, or by two when the handler ran twice), or
  pending below the limit with a retry time.
\<close>

definition settled :: "Job \<Rightarrow> Job \<Rightarrow> bool" where
  "settled job job' \<longleftrightarrow>
     job_id job' = job_id job \<and> max_retries job' = max_retries job \<and>
     (state job' = ''completed'' \<and> attempts job' = attempts job \<and> retry_after_time job' = None
      \<or> state job' = ''dead'' \<and> retry_after_time job' = None \<and>
          max_retries job \<le> int (attempts job') \<and>
          (attempts job' = attempts job + 1 \<or>
           attempts job' = attempts job + 2 \<and> int (attempts job) + 1 < max_retries job)
      \<or> state job' = ''pending'' \<and> retry_after_time job' \<noteq> None \<and>
          attempts job < attempts job' \<and> int (attempts job') < max_retries job)"

text \<open>
  A row respects the retry limit (\<open>row_ok\<close>); a held job is below its limit and its row
  is \<^verbatim>\<open>processing\<close> with the same limit and the same count (\<open>held_ok\<close>); \<open>inv\<close> adds
  that ids are unique in the table, as the primary key makes them, and among the held jobs. \<open>retry_ok\<close>: a retry time is set only on a pending or processing
  row that has failed before.
\<close>

definition row_ok :: "Job \<Rightarrow> bool" where
  "row_ok r \<longleftrightarrow>
     1 \<le> max_retries r \<and> int (attempts r) \<le> max_retries r \<and>
     (state r = ''dead'' \<longleftrightarrow> max_retries r \<le> int (attempts r))"

definition held_ok :: "Job list \<Rightarrow> Job \<Rightarrow> bool" where
  "held_ok store j \<longleftrightarrow>
     int (attempts j) < max_retries j \<and> state j = ''processing'' \<and>
     (\<exists>r\<in>set store. job_id r = job_id j \<and> max_retries r = max_retries j \<and>
                     attempts r = attempts j \<and> state r = ''processing'')"

definition inv :: "Job list \<times> Job list \<Rightarrow> bool" where
  "inv s \<longleftrightarrow>
     distinct (map job_id (fst s)) \<and> distinct (map job_id (snd s)) \<and>
     (\<forall>r\<in>set (fst s). row_ok r) \<and> (\<forall>j\<in>set (snd s). held_ok (fst s) j)"

definition retry_ok :: "Job \<Rightarrow> bool" where
  "retry_ok r \<longleftrightarrow>
     retry_after_time r = None \<or>
     (state r = ''pending'' \<or> state r = ''processing'') \<and> 0 < attempts r"

section \<open>Example data\<close>

text \<open>The instant 2026-11-04T00:00:00 UTC.\<close>

definition t0 :: timestamp where
  "t0 = 739923 * 86400 * 1000000"

definition j_old :: Job where
  "j_old = \<lparr>job_id = ''a'', command = ''false'', max_retries = 3, state = ''pending'',
            attempts = 1, created_at = 10, updated_at = 40, retry_after_time = Some 101\<rparr>"

definition j_due :: Job where
  "j_due = \<lparr>job_id = ''b'', command = ''false'', max_retries = 3, state = ''pending'',
            attempts = 1, created_at = 20, updated_at = 50, retry_after_time = Some 100\<rparr>"

definition j_new :: Job where
  "j_new = \<lparr>job_id = ''c'', command = ''true'', max_retries = 3, state = ''pending'',
            attempts = 0, created_at = 30, updated_at = 30, retry_after_time = None\<rparr>"


definition j_five :: Job where
  "j_five = \<lparr>job_id = ''e'', command = ''exit 1'', max_retries = 5, state = ''processing'',
             attempts = 0, created_at = t0 - 9000000, updated_at = t0 - 1000000,
             retry_after_time = None\<rparr>"

definition j_two :: Job where
  "j_two = \<lparr>job_id = ''f'', command = ''exit 1'', max_retries = 2, state = ''processing'',
            attempts = 0, created_at = t0 - 9000000, updated_at = t0 - 1000000,
            retry_after_time = None\<rparr>"

text \<open>
  Runs of the system: a job fails once; it is claimed again at its retry time; a job with one
  retry fails and is dead while another is being processed.
\<close>

definition evs_fail :: "event list" where
  "evs_fail = [Enqueue t0 ''a'' ''exit 1'' None, Claim (t0 + 1000000),
               Finish 2 (t0 + 2000000) (Exited 1) ''a'']"

definition evs_reclaim :: "event list" where
  "evs_reclaim = [Enqueue t0 ''a'' ''exit 1'' None, Claim (t0 + 1000000),
                  Finish 2 (t0 + 2000000) (Exited 1) ''a'', Claim (t0 + 4000000)]"

definition evs_claimed :: "event list" where
  "evs_claimed = [Enqueue t0 ''a'' ''exit 1'' (Some 1), Claim (t0 + 1000000)]"

definition evs_dead :: "event list" where
  "evs_dead = [Enqueue t0 ''a'' ''exit 1'' (Some 1), Claim (t0 + 1000000),
               Finish 2 (t0 + 2000000) (Exited 1) ''a'',
               Enqueue (t0 + 3000000) ''b'' ''true'' None, Claim (t0 + 4000000)]"

section \<open>Rows and job objects\<close>

lemma Job_call_to_dict:
  "Job_call now (VStr (job_id j)) (VStr (command j))
     ((to_dict j)(''id'' := None, ''command'' := None)) = Inr j"
  by (cases "retry_after_time j") (simp_all add: Job_call_def Job_init_def to_dict_def dict_get_def)

text \<open>
  A job written to its dictionary and read by \<^verbatim>\<open>row_to_job\<close> is the same job, attribute by
  attribute.
\<close>

lemma row_to_job_to_dict: "row_to_job now (Some (to_dict j)) = Inr (Some j)"
proof -
  have 1: "dict_pop (to_dict j) ''id'' = Inr (VStr (job_id j), (to_dict j)(''id'' := None))"
    by (simp add: dict_pop_def to_dict_def)
  have 2: "dict_pop ((to_dict j)(''id'' := None)) ''command''
             = Inr (VStr (command j), (to_dict j)(''id'' := None, ''command'' := None))"
    by (simp add: dict_pop_def to_dict_def)
  show ?thesis
    by (simp add: row_to_job_def 1 2 Job_call_to_dict)
qed

text \<open>
  C10. The round trip through \<^verbatim>\<open>to_dict\<close> and \<^verbatim>\<open>row_to_job\<close> is \<open>row_to_job_to_dict\<close>.
  \<^verbatim>\<open>Job.from_dict\<close> is not its equal: on the dictionary of any job it passes \<^verbatim>\<open>id\<close> and
  \<^verbatim>\<open>command\<close> both by position and by keyword, and the call raises TypeError.
\<close>

theorem from_dict_to_dict_raises: "from_dict now (to_dict j) = Inl TypeError"
  by (simp add: from_dict_def dict_item_def Job_call_def to_dict_def)

section \<open>Claiming the next job\<close>

lemma oldest_None: "oldest rs = None \<longleftrightarrow> rs = []"
  by (induction rs) (auto split: option.splits)

lemma oldest_Some:
  "oldest rs = Some m \<Longrightarrow> m \<in> set rs \<and> (\<forall>r\<in>set rs. created_at m \<le> created_at r)"
proof (induction rs arbitrary: m)
  case Nil
  then show ?case by simp
next
  case (Cons r rs)
  show ?case
  proof (cases "oldest rs")
    case None
    with Cons.prems show ?thesis by (simp add: oldest_None)
  next
    case (Some k)
    with Cons.IH have k: "k \<in> set rs" "\<forall>x\<in>set rs. created_at k \<le> created_at x" by auto
    from Some Cons.prems have "m = (if created_at r \<le> created_at k then r else k)"
      by (simp split: if_splits)
    with k show ?thesis by (cases "created_at r \<le> created_at k") force+
  qed
qed

lemma pick_job_for_worker_eq:
  "pick_job_for_worker now store =
     (case oldest (filter (eligible now) store) of
        None \<Rightarrow> (None, store)
      | Some row \<Rightarrow> (Some (row\<lparr>state := ''processing'', updated_at := now\<rparr>),
                     mark_row (row\<lparr>state := ''processing'', updated_at := now\<rparr>) store))"
  by (simp add: pick_job_for_worker_def row_to_job_to_dict Let_def split: option.splits)

text \<open>
  C1. \<^verbatim>\<open>pick_job_for_worker\<close> returns nothing exactly when no row is eligible, and then the
  table is unchanged. Otherwise it returns an eligible row of least \<^verbatim>\<open>created_at\<close>, as the
  object it built from it (state \<^verbatim>\<open>processing\<close>, \<^verbatim>\<open>updated_at\<close> the clock reading), and the
  row of that id is \<^verbatim>\<open>processing\<close> in the table. A row is eligible when it is \<^verbatim>\<open>pending\<close>
  and its \<^verbatim>\<open>retry_after_time\<close> is null or at most the clock reading (\<open>eligible\<close>); the
  result is a plain optional job, no error value.
\<close>

theorem pick_job_for_worker_oldest_eligible:
  "(case pick_job_for_worker now store of
      (None, store') \<Rightarrow> store' = store \<and> (\<forall>r\<in>set store. \<not> eligible now r)
    | (Some job, store') \<Rightarrow>
        (\<exists>r\<in>set store.
           eligible now r \<and>
           (\<forall>r'\<in>set store. eligible now r' \<longrightarrow> created_at r \<le> created_at r') \<and>
           job = r\<lparr>state := ''processing'', updated_at := now\<rparr> \<and>
           store' = map (\<lambda>x. if job_id x = job_id r
                               then x\<lparr>state := ''processing'', updated_at := now\<rparr> else x) store))"
proof (cases "oldest (filter (eligible now) store)")
  case None
  then have "filter (eligible now) store = []" by (simp add: oldest_None)
  then have "\<forall>r\<in>set store. \<not> eligible now r" by (simp add: filter_empty_conv)
  with None show ?thesis by (simp add: pick_job_for_worker_eq)
next
  case (Some r)
  from oldest_Some [OF Some]
  have r: "r \<in> set store" "eligible now r"
    and least: "\<forall>r'\<in>set store. eligible now r' \<longrightarrow> created_at r \<le> created_at r'"
    by auto
  have "pick_job_for_worker now store =
          (Some (r\<lparr>state := ''processing'', updated_at := now\<rparr>),
           map (\<lambda>x. if job_id x = job_id r
                     then x\<lparr>state := ''processing'', updated_at := now\<rparr> else x) store)"
    using Some by (simp add: pick_job_for_worker_eq mark_row_def)
  with r least show ?thesis by auto
qed

text \<open>
  At clock reading 100 the row due at exactly 100 is claimed, though an older row is due
  at 101 and a row without a retry time is newer; at 99 neither pending row is due.
\<close>

theorem pick_job_for_worker_oldest_eligible_witness:
  "pick_job_for_worker 100 [j_old, j_due, j_new] =
     (Some (j_due\<lparr>state := ''processing'', updated_at := 100\<rparr>),
      [j_old, j_due\<lparr>state := ''processing'', updated_at := 100\<rparr>, j_new])
   \<and> pick_job_for_worker 99 [j_old, j_due] = (None, [j_old, j_due])"
  using pick_job_for_worker_oldest_eligible [where now = 100 and store = "[j_old, j_due, j_new]"]
    pick_job_for_worker_oldest_eligible [where now = 99 and store = "[j_old, j_due]"]
  by (simp add: pick_job_for_worker_eq eligible_def mark_row_def j_old_def j_due_def j_new_def)

section \<open>Writing to the table\<close>

lemma update_job_state_eq:
  "update_job_state now job store =
     (job\<lparr>updated_at := now\<rparr>,
      map (\<lambda>r. if job_id r = job_id job
                then r\<lparr>state := state job, attempts := attempts job, updated_at := now,
                       retry_after_time := retry_after_time job\<rparr>
                else r) store)"
  by (simp add: update_job_state_def Let_def cong: if_cong)





text \<open>
  C8. \<^verbatim>\<open>update_job_state\<close> rewrites the rows whose id is the job's: they take the job's
  \<^verbatim>\<open>state\<close>, \<^verbatim>\<open>attempts\<close> and \<^verbatim>\<open>retry_after_time\<close> and the clock reading as
  \<^verbatim>\<open>updated_at\<close>, and keep their own \<^verbatim>\<open>id\<close>, \<^verbatim>\<open>command\<close>, \<^verbatim>\<open>max_retries\<close> and
  \<^verbatim>\<open>created_at\<close>. Every other row stays as it is.
\<close>

theorem update_job_state_frame:
  "update_job_state now job store =
     (job\<lparr>updated_at := now\<rparr>,
      map (\<lambda>r. if job_id r = job_id job
                then \<lparr>job_id = job_id r, command = command r, max_retries = max_retries r,
                      state = state job, attempts = attempts job, created_at = created_at r,
                      updated_at = now, retry_after_time = retry_after_time job\<rparr>
                else r) store)"
  by (simp add: update_job_state_eq)

text \<open>
  C9. \<^verbatim>\<open>update_job_state\<close> for a job whose id no row has leaves the table as it is; the
  call returns normally (the model has no error result for it).
\<close>

theorem update_job_state_unknown_id:
  "job_id job \<notin> job_id ` set store \<Longrightarrow>
     update_job_state now job store = (job\<lparr>updated_at := now\<rparr>, store)"
proof -
  assume "job_id job \<notin> job_id ` set store"
  then have fresh: "\<forall>r\<in>set store. job_id r \<noteq> job_id job"
    by (metis imageI)
  have "map (\<lambda>r. if job_id r = job_id job
                  then r\<lparr>state := state job, attempts := attempts job, updated_at := now,
                         retry_after_time := retry_after_time job\<rparr>
                  else r) store = store"
    by (rule map_idI) (simp add: fresh)
  then show ?thesis by (simp add: update_job_state_eq)
qed

theorem update_job_state_unknown_id_witness:
  "job_id j_new \<notin> job_id ` set [j_old, j_due] \<and>
   update_job_state 7 (j_new\<lparr>state := ''dead''\<rparr>) [j_old, j_due] =
     (j_new\<lparr>state := ''dead'', updated_at := 7\<rparr>, [j_old, j_due])"
proof -
  have h: "job_id (j_new\<lparr>state := ''dead''\<rparr>) \<notin> job_id ` set [j_old, j_due]"
    by (simp add: j_old_def j_due_def j_new_def)
  from update_job_state_unknown_id [OF h, of 7] h show ?thesis by simp
qed

section \<open>The administrative requeue\<close>

lemma get_job_by_id_eq: "get_job_by_id now i store = Inr (find (\<lambda>r. job_id r = i) store)"
proof (cases "find (\<lambda>r. job_id r = i) store")
  case None
  then show ?thesis by (simp add: get_job_by_id_def row_to_job_def)
next
  case (Some r)
  then show ?thesis by (simp add: get_job_by_id_def row_to_job_to_dict)
qed

text \<open>
  C6. \<^verbatim>\<open>dlq retry\<close> of an id that no row has, or whose row is not \<^verbatim>\<open>dead\<close>, prints an error
  line and leaves the table as it is. For a \<^verbatim>\<open>dead\<close> row it sets \<^verbatim>\<open>state\<close> to
  \<^verbatim>\<open>pending\<close>, \<^verbatim>\<open>attempts\<close> to 0 and \<^verbatim>\<open>retry_after_time\<close> to null (and refreshes
  \<^verbatim>\<open>updated_at\<close>); \<^verbatim>\<open>id\<close>, \<^verbatim>\<open>command\<close>, \<^verbatim>\<open>max_retries\<close> and \<^verbatim>\<open>created_at\<close> stay.
\<close>

theorem retry_requeues_only_dead:
  "retry now i store =
     (case find (\<lambda>r. job_id r = i) store of
        None \<Rightarrow> Inr (''Error: Job ID '' @ quote @ i @ quote @ '' not found.'', store)
      | Some job \<Rightarrow>
          if state job = ''dead''
          then Inr (''Job '' @ i @ '' moved from DLQ to '' @ quote @ ''pending'' @ quote
                      @ '' queue for retry.'',
                    map (\<lambda>r. if job_id r = i
                              then \<lparr>job_id = job_id r, command = command r,
                                    max_retries = max_retries r, state = ''pending'', attempts = 0,
                                    created_at = created_at r, updated_at = now,
                                    retry_after_time = None\<rparr>
                              else r) store)
          else Inr (''Error: Job '' @ quote @ i @ quote @ '' is in state '' @ quote @ state job
                      @ quote @ '', not '' @ quote @ ''dead'' @ quote @ ''.'', store))"
proof (cases "find (\<lambda>r. job_id r = i) store")
  case None
  then show ?thesis by (simp add: retry_def get_job_by_id_eq)
next
  case (Some job)
  then have "job_id job = i" by (auto simp add: find_Some_iff)
  with Some show ?thesis
    by (simp add: retry_def get_job_by_id_eq update_job_state_eq)
qed

section \<open>Failure handling and backoff\<close>

lemma handle_failure_eq:
  "handle_failure b now job store =
     (if max_retries job \<le> int (attempts job) + 1
      then Inr (update_job_state now
                  (job\<lparr>attempts := attempts job + 1, state := ''dead'',
                        retry_after_time := None\<rparr>) store)
      else case add_seconds now (b ^ (attempts job + 1)) of
             Inl e \<Rightarrow> Inl (e, job\<lparr>attempts := attempts job + 1, state := ''pending''\<rparr>)
           | Inr t \<Rightarrow>
               Inr (update_job_state now
                      (job\<lparr>attempts := attempts job + 1, state := ''pending'',
                            retry_after_time := Some t\<rparr>) store))"
  by (simp add: handle_failure_def Let_def split: sum.splits)

text \<open>
  C2, amended. When the count after the increment is below \<^verbatim>\<open>max_retries\<close> and the
  instant \<open>now + retry_base ^ attempts\<close> seconds (the exponent being the count after the
  increment) is one a \<^verbatim>\<open>datetime\<close> can hold, \<^verbatim>\<open>handle_failure\<close> stores state
  \<^verbatim>\<open>pending\<close>, the new count and exactly that instant as \<^verbatim>\<open>retry_after_time\<close>.
\<close>

theorem handle_failure_backoff:
  assumes "int (attempts job) + 1 < max_retries job"
    and "0 \<le> now + retry_base ^ (attempts job + 1) * 1000000"
    and "now + retry_base ^ (attempts job + 1) * 1000000 \<le> datetime_max"
  shows "handle_failure retry_base now job store =
     Inr (job\<lparr>attempts := attempts job + 1, state := ''pending'',
               retry_after_time := Some (now + retry_base ^ (attempts job + 1) * 1000000),
               updated_at := now\<rparr>,
          map (\<lambda>r. if job_id r = job_id job
                    then r\<lparr>state := ''pending'', attempts := attempts job + 1, updated_at := now,
                           retry_after_time :=
                             Some (now + retry_base ^ (attempts job + 1) * 1000000)\<rparr>
                    else r) store)"
  using assms
  by (simp add: handle_failure_def add_seconds_def Let_def update_job_state_eq)

text \<open>Base 2: the first, second and third failure wait 2, 4 and 8 seconds.\<close>

theorem handle_failure_backoff_witness:
  "handle_failure 2 t0 j_five [j_five] =
     Inr (j_five\<lparr>attempts := 1, state := ''pending'', retry_after_time := Some (t0 + 2000000),
                 updated_at := t0\<rparr>,
          [j_five\<lparr>state := ''pending'', attempts := 1, updated_at := t0,
                  retry_after_time := Some (t0 + 2000000)\<rparr>]) \<and>
   handle_failure 2 t0 (j_five\<lparr>attempts := 1\<rparr>) [] =
     Inr (j_five\<lparr>attempts := 2, state := ''pending'', retry_after_time := Some (t0 + 4000000),
                 updated_at := t0\<rparr>, []) \<and>
   handle_failure 2 t0 (j_five\<lparr>attempts := 2\<rparr>) [] =
     Inr (j_five\<lparr>attempts := 3, state := ''pending'', retry_after_time := Some (t0 + 8000000),
                 updated_at := t0\<rparr>, [])"
  using handle_failure_backoff [of j_five 2 t0 "[j_five]"]
    handle_failure_backoff [of "j_five\<lparr>attempts := 1\<rparr>" 2 t0 "[]"]
    handle_failure_backoff [of "j_five\<lparr>attempts := 2\<rparr>" 2 t0 "[]"]
  by (simp add: handle_failure_def add_seconds_def Let_def update_job_state_eq j_five_def t0_def
      datetime_max_def)

text \<open>
  With \<^verbatim>\<open>retry_base\<close> \<open>10 ^ 12\<close> the first failure of a job with five retries is below the
  limit, yet the retry instant lies after the year 9999: the handler raises OverflowError
  and writes nothing, and so does \<^verbatim>\<open>process_job\<close> for a command that could not start.
\<close>

theorem handle_failure_backoff_counterexample:
  "int (attempts j_five) + 1 < max_retries j_five \<and>
   handle_failure 1000000000000 t0 j_five [j_five] =
     Inl (OverflowError, j_five\<lparr>attempts := 1, state := ''pending''\<rparr>) \<and>
   process_job 1000000000000 t0 LaunchError j_five [j_five] = Inl OverflowError"
  by (simp add: process_job_def handle_failure_def add_seconds_def Let_def j_five_def t0_def
      datetime_max_def)

section \<open>Classifying the outcome of a command\<close>

lemma process_job_success:
  "process_job b now (Exited 0) job store =
     Inr (snd (update_job_state now (job\<lparr>state := ''completed'', retry_after_time := None\<rparr>) store))"
  by (simp add: process_job_def handle_success_def)

text \<open>
  While the failure handler returns, an exit status other than 0 and a command that could
  not start are treated alike.
\<close>

lemma process_job_failure_agree:
  assumes "rc \<noteq> 0" and "handle_failure b now job store = Inr p"
  shows "process_job b now (Exited rc) job store = process_job b now LaunchError job store"
  using assms by (simp add: process_job_def)

text \<open>
  C7. The two kinds of failure part where the handler raises. With \<^verbatim>\<open>retry_base\<close>
  \<open>10 ^ 12\<close> and \<^verbatim>\<open>max_retries\<close> 2, a command that exits with status 1 has its handler
  called twice (the first call raises inside the \<^verbatim>\<open>try\<close>): one failure counts as two
  attempts and the job is \<^verbatim>\<open>dead\<close>. A command that could not start has it called once,
  in the \<^verbatim>\<open>except\<close> clause: the error leaves \<^verbatim>\<open>process_job\<close> and the row stays as it was.
\<close>

theorem process_job_failure_paths_differ:
  "process_job 1000000000000 t0 (Exited 1) j_two [j_two] =
     Inr [j_two\<lparr>state := ''dead'', attempts := 2, updated_at := t0\<rparr>] \<and>
   process_job 1000000000000 t0 LaunchError j_two [j_two] = Inl OverflowError"
  by (simp add: process_job_def handle_failure_def add_seconds_def Let_def update_job_state_eq
      j_two_def t0_def datetime_max_def)

section \<open>What a finished job writes\<close>

lemma handle_failure_Inr:
  assumes "handle_failure b now job store = Inr (job', store')"
  shows "\<exists>k. store' = snd (update_job_state now k store) \<and>
             job_id k = job_id job \<and> max_retries k = max_retries job \<and>
             attempts k = attempts job + 1 \<and>
             (state k = ''dead'' \<and> retry_after_time k = None \<and>
                max_retries job \<le> int (attempts job) + 1
              \<or> state k = ''pending'' \<and> retry_after_time k \<noteq> None \<and>
                int (attempts job) + 1 < max_retries job)"
proof (cases "max_retries job \<le> int (attempts job) + 1")
  case True
  let ?k = "job\<lparr>attempts := attempts job + 1, state := ''dead'', retry_after_time := None\<rparr>"
  from assms True have "store' = snd (update_job_state now ?k store)"
    by (auto simp add: handle_failure_eq)
  with True show ?thesis by (intro exI [of _ ?k]) simp
next
  case False
  with assms obtain t where t: "add_seconds now (b ^ (attempts job + 1)) = Inr t"
    by (auto simp add: handle_failure_eq split: sum.splits)
  let ?k = "job\<lparr>attempts := attempts job + 1, state := ''pending'', retry_after_time := Some t\<rparr>"
  from assms False t have "store' = snd (update_job_state now ?k store)"
    by (auto simp add: handle_failure_eq)
  with False show ?thesis by (intro exI [of _ ?k]) simp
qed

lemma handle_failure_Inl:
  assumes "handle_failure b now job store = Inl (e, job')"
  shows "job' = job\<lparr>attempts := attempts job + 1, state := ''pending''\<rparr> \<and>
         int (attempts job) + 1 < max_retries job"
  using assms by (auto simp add: handle_failure_eq split: if_splits sum.splits)

lemma process_job_settles:
  assumes "process_job b now out job store = Inr store'"
  shows "\<exists>k. store' = snd (update_job_state now k store) \<and> settled job k"
proof (cases out)
  case LaunchError
  with assms obtain job' where "handle_failure b now job store = Inr (job', store')"
    by (auto simp add: process_job_def split: sum.splits)
  from handle_failure_Inr [OF this] show ?thesis
    by (auto simp add: settled_def)
next
  case (Exited rc)
  show ?thesis
  proof (cases "rc = 0")
    case True
    let ?k = "job\<lparr>state := ''completed'', retry_after_time := None\<rparr>"
    from assms Exited True have "store' = snd (update_job_state now ?k store)"
      by (simp add: process_job_def handle_success_def)
    then show ?thesis by (intro exI [of _ ?k]) (simp add: settled_def)
  next
    case False
    show ?thesis
    proof (cases "handle_failure b now job store")
      case (Inr p)
      with assms Exited False have "handle_failure b now job store = Inr (fst p, store')"
        by (cases p) (simp add: process_job_def)
      from handle_failure_Inr [OF this] show ?thesis
        by (auto simp add: settled_def)
    next
      case (Inl q)
      obtain e job1 where q: "q = (e, job1)" by (cases q)
      from handle_failure_Inl [OF Inl [unfolded q]]
      have job1: "job1 = job\<lparr>attempts := attempts job + 1, state := ''pending''\<rparr>"
        and lt: "int (attempts job) + 1 < max_retries job" by auto
      from assms Exited False Inl q obtain job2
        where "handle_failure b now job1 store = Inr (job2, store')"
        by (auto simp add: process_job_def split: sum.splits)
      from handle_failure_Inr [OF this] job1 lt show ?thesis
        by (auto simp add: settled_def)
    qed
  qed
qed

text \<open>The two commands, computed.\<close>

lemma enqueue_eq:
  "enqueue now i c m store =
     Inr (if fits_int64 (case m of None \<Rightarrow> 3 | Some k \<Rightarrow> k)
          then
            (if i \<in> job_id ` set store
             then (''Error: Job with ID '' @ i @ '' already exists.'', store)
             else (''Job '' @ i @ '' added to queue in '' @ quote @ ''pending'' @ quote
                     @ '' state.'',
                   store @ [\<lparr>job_id = i, command = c,
                              max_retries = (case m of None \<Rightarrow> 3 | Some k \<Rightarrow> k),
                              state = ''pending'', attempts = 0, created_at = now,
                              updated_at = now, retry_after_time = None\<rparr>]))
          else (''Error: Database error during enqueue: ''
                  @ ''Python int too large to convert to SQLite INTEGER'', store))"
  by (simp add: enqueue_def Job_init_def dict_get_def enqueue_job_def fits_int64_def)

lemma retry_eq:
  "retry now i store =
     (case find (\<lambda>r. job_id r = i) store of
        None \<Rightarrow> Inr (''Error: Job ID '' @ quote @ i @ quote @ '' not found.'', store)
      | Some job \<Rightarrow>
          if state job = ''dead''
          then Inr (''Job '' @ i @ '' moved from DLQ to '' @ quote @ ''pending'' @ quote
                      @ '' queue for retry.'',
                    map (\<lambda>r. if job_id r = i
                              then r\<lparr>state := ''pending'', attempts := 0, updated_at := now,
                                     retry_after_time := None\<rparr>
                              else r) store)
          else Inr (''Error: Job '' @ quote @ i @ quote @ '' is in state '' @ quote @ state job
                      @ quote @ '', not '' @ quote @ ''dead'' @ quote @ ''.'', store))"
proof (cases "find (\<lambda>r. job_id r = i) store")
  case None
  then show ?thesis by (simp add: retry_def get_job_by_id_eq)
next
  case (Some job)
  then have "job_id job = i" by (auto simp add: find_Some_iff)
  with Some show ?thesis
    by (simp add: retry_def get_job_by_id_eq update_job_state_eq)
qed

section \<open>Preservation of the invariant\<close>

lemma ids_map_upd:
  assumes "\<And>r. job_id (f r) = job_id r"
  shows "map job_id (map (\<lambda>r. if job_id r = k then f r else r) store) = map job_id store"
  using assms by (induction store) auto

lemma unique_row:
  assumes "distinct (map job_id store)" "r \<in> set store" "x \<in> set store" "job_id x = job_id r"
  shows "x = r"
  using assms by (auto simp add: distinct_map dest: inj_onD)

lemma held_row:
  assumes inv: "inv (store, held)" and j: "j \<in> set held"
    and r: "r \<in> set store" "job_id r = job_id j"
  shows "state r = ''processing'' \<and> attempts r = attempts j \<and> max_retries r = max_retries j \<and>
         int (attempts j) < max_retries j"
proof -
  from inv j obtain w where w: "w \<in> set store" "job_id w = job_id j"
      "max_retries w = max_retries j" "attempts w = attempts j" "state w = ''processing''"
    and lt: "int (attempts j) < max_retries j"
    by (auto simp add: inv_def held_ok_def)
  from inv have "distinct (map job_id store)" by (simp add: inv_def)
  from unique_row [OF this w(1) r(1)] r(2) w(2) have "r = w" by simp
  with w lt show ?thesis by simp
qed

lemma inv_upd:
  assumes inv: "inv (store, held)"
    and ids: "\<And>r. job_id (f r) = job_id r"
    and rows: "\<And>r. r \<in> set store \<Longrightarrow> job_id r = k \<Longrightarrow> row_ok (f r)"
    and sub: "set held' \<subseteq> set held"
    and dh: "distinct (map job_id held')"
    and away: "\<forall>j\<in>set held'. job_id j \<noteq> k"
  shows "inv (map (\<lambda>r. if job_id r = k then f r else r) store, held')"
proof -
  let ?g = "\<lambda>r. if job_id r = k then f r else r"
  from inv have d: "distinct (map job_id store)" and ok: "\<forall>r\<in>set store. row_ok r"
    and h: "\<forall>j\<in>set held. held_ok store j"
    by (simp_all add: inv_def)
  have "distinct (map job_id (map ?g store))" using d by (simp only: ids_map_upd [of f, OF ids])
  moreover have "\<forall>r\<in>set (map ?g store). row_ok r" using ok rows by auto
  moreover have "held_ok (map ?g store) j" if j: "j \<in> set held'" for j
  proof -
    from j sub h have hj: "held_ok store j" by blast
    then obtain w where w: "w \<in> set store" "job_id w = job_id j"
        "max_retries w = max_retries j" "attempts w = attempts j" "state w = ''processing''"
      by (auto simp add: held_ok_def)
    from away j w(2) have "?g w = w" by simp
    moreover have "?g w \<in> set (map ?g store)" using w(1) by (simp only: set_map) (rule imageI)
    ultimately have "w \<in> set (map ?g store)" by simp
    with hj w show ?thesis unfolding held_ok_def by blast
  qed
  ultimately show ?thesis using dh by (simp add: inv_def)
qed

lemma inv_enqueue:
  assumes "inv (store, held)" and "valid_event (Enqueue now i c m)"
  shows "inv (step (store, held) (Enqueue now i c m))"
proof (cases "fits_int64 (case m of None \<Rightarrow> 3 | Some k \<Rightarrow> k) \<and> i \<notin> job_id ` set store")
  case False
  with assms(1) show ?thesis by (auto simp add: enqueue_eq)
next
  case True
  let ?n = "\<lparr>job_id = i, command = c, max_retries = (case m of None \<Rightarrow> 3 | Some k \<Rightarrow> k),
             state = ''pending'', attempts = 0, created_at = now, updated_at = now,
             retry_after_time = None\<rparr>"
  have st: "step (store, held) (Enqueue now i c m) = (store @ [?n], held)"
    using True by (simp add: enqueue_eq)
  from assms(2) have "1 \<le> max_retries ?n" by (cases m) simp_all
  then have n: "row_ok ?n" by (simp add: row_ok_def)
  from assms(1) have d: "distinct (map job_id store)" and dh: "distinct (map job_id held)"
    and ok: "\<forall>r\<in>set store. row_ok r" and h: "\<forall>j\<in>set held. held_ok store j"
    by (simp_all add: inv_def)
  have "distinct (map job_id (store @ [?n]))" using d True by simp
  moreover have "\<forall>r\<in>set (store @ [?n]). row_ok r" using ok n by simp
  moreover have "\<forall>j\<in>set held. held_ok (store @ [?n]) j"
    using h by (auto simp add: held_ok_def)
  ultimately show ?thesis unfolding st using dh by (simp add: inv_def)
qed

lemma inv_claim:
  assumes inv: "inv (store, held)"
  shows "inv (step (store, held) (Claim now))"
proof (cases "oldest (filter (eligible now) store)")
  case None
  with inv show ?thesis by (simp add: pick_job_for_worker_eq)
next
  case (Some r)
  let ?f = "\<lambda>x. x\<lparr>state := ''processing'', updated_at := now\<rparr>"
  let ?store' = "map (\<lambda>x. if job_id x = job_id r then ?f x else x) store"
  from oldest_Some [OF Some] have r: "r \<in> set store" "eligible now r" by auto
  from inv have d: "distinct (map job_id store)" and dh: "distinct (map job_id held)"
    and ok: "\<forall>r\<in>set store. row_ok r"
    by (simp_all add: inv_def)
  have st: "step (store, held) (Claim now) = (?store', ?f r # held)"
    using Some by (simp add: pick_job_for_worker_eq mark_row_def)
  from r ok have live: "int (attempts r) < max_retries r" "1 \<le> max_retries r"
    by (auto simp add: eligible_def row_ok_def)
  have rows: "row_ok (?f x)" if "x \<in> set store" "job_id x = job_id r" for x
  proof -
    from unique_row [OF d r(1) that] have "x = r" .
    with live show ?thesis by (simp add: row_ok_def)
  qed
  have away: "\<forall>j\<in>set held. job_id j \<noteq> job_id r"
  proof
    fix j assume j: "j \<in> set held"
    show "job_id j \<noteq> job_id r"
    proof
      assume "job_id j = job_id r"
      with held_row [OF inv j r(1)] have "state r = ''processing''" by simp
      with r(2) show False by (simp add: eligible_def)
    qed
  qed
  have base: "inv (?store', held)"
    by (rule inv_upd [OF inv _ _ _ dh away]) (simp_all add: rows)
  have "?f r \<in> set ?store'" using r(1) by (simp only: set_map) force
  then have "held_ok ?store' (?f r)" unfolding held_ok_def using live
    by (intro conjI bexI [of _ "?f r"]) simp_all
  moreover have "job_id r \<notin> job_id ` set held" using away by (metis imageE)
  ultimately show ?thesis unfolding st using base by (simp add: inv_def)
qed

lemma inv_drop_held:
  assumes inv: "inv (store, held)" and job: "job \<in> set held"
  shows "set (remove1 job held) \<subseteq> set held"
    and "distinct (map job_id (remove1 job held))"
    and "\<forall>j\<in>set (remove1 job held). job_id j \<noteq> job_id job"
proof -
  from inv have dh: "distinct (map job_id held)" by (simp add: inv_def)
  then have dl: "distinct held" and inj: "inj_on job_id (set held)"
    by (simp_all add: distinct_map)
  show sub: "set (remove1 job held) \<subseteq> set held" by (rule set_remove1_subset)
  from dl inj sub show "distinct (map job_id (remove1 job held))"
    by (simp add: distinct_map inj_on_subset)
  show "\<forall>j\<in>set (remove1 job held). job_id j \<noteq> job_id job"
  proof
    fix j assume j: "j \<in> set (remove1 job held)"
    with dl have "j \<in> set held" "j \<noteq> job" by simp_all
    with inj job show "job_id j \<noteq> job_id job" by (auto dest: inj_onD)
  qed
qed

lemma inv_finish:
  assumes inv: "inv (store, held)"
  shows "inv (step (store, held) (Finish b now out i))"
proof (cases "find (\<lambda>j. job_id j = i) held")
  case None
  with inv show ?thesis by simp
next
  case (Some job)
  then have job: "job \<in> set held" by (auto simp add: find_Some_iff in_set_conv_nth)
  from inv have d: "distinct (map job_id store)" and ok: "\<forall>r\<in>set store. row_ok r"
    and h: "\<forall>j\<in>set held. held_ok store j"
    by (simp_all add: inv_def)
  note drop = inv_drop_held [OF inv job]
  show ?thesis
  proof (cases "process_job b now out job store")
    case (Inl e)
    have "inv (store, remove1 job held)"
      using d ok h drop(1,2) by (auto simp add: inv_def)
    with Some Inl show ?thesis by simp
  next
    case (Inr store')
    from process_job_settles [OF Inr] obtain k
      where k: "store' = snd (update_job_state now k store)" and s: "settled job k" by blast
    let ?f = "\<lambda>r. r\<lparr>state := state k, attempts := attempts k, updated_at := now,
                     retry_after_time := retry_after_time k\<rparr>"
    from s have idk: "job_id k = job_id job" by (simp add: settled_def)
    have rows: "row_ok (?f x)" if "x \<in> set store" "job_id x = job_id k" for x
    proof -
      from held_row [OF inv job that(1)] that(2) idk
      have "max_retries x = max_retries job" "int (attempts job) < max_retries job" by simp_all
      moreover from ok that(1) have "1 \<le> max_retries x" by (simp add: row_ok_def)
      ultimately show ?thesis using s by (auto simp add: row_ok_def settled_def)
    qed
    have "inv (map (\<lambda>r. if job_id r = job_id k then ?f r else r) store, remove1 job held)"
      by (rule inv_upd [OF inv _ _ drop(1,2)]) (simp_all add: rows drop(3) idk)
    with Some Inr k show ?thesis by (simp add: update_job_state_eq)
  qed
qed

lemma inv_requeue:
  assumes inv: "inv (store, held)"
  shows "inv (step (store, held) (Requeue now i))"
proof (cases "find (\<lambda>r. job_id r = i) store")
  case None
  with inv show ?thesis by (simp add: retry_eq)
next
  case (Some job)
  then have job: "job \<in> set store" "job_id job = i"
    by (auto simp add: find_Some_iff in_set_conv_nth)
  show ?thesis
  proof (cases "state job = ''dead''")
    case False
    with Some inv show ?thesis by (simp add: retry_eq)
  next
    case True
    let ?f = "\<lambda>r. r\<lparr>state := ''pending'', attempts := 0, updated_at := now,
                     retry_after_time := None\<rparr>"
    from inv have ok: "\<forall>r\<in>set store. row_ok r" and dh: "distinct (map job_id held)"
      by (simp_all add: inv_def)
    have rows: "row_ok (?f x)" if "x \<in> set store" for x
      using ok that by (auto simp add: row_ok_def)
    have away: "\<forall>j\<in>set held. job_id j \<noteq> i"
    proof
      fix j assume j: "j \<in> set held"
      show "job_id j \<noteq> i"
      proof
        assume "job_id j = i"
        with held_row [OF inv j job(1)] job(2) have "state job = ''processing''" by simp
        with True show False by simp
      qed
    qed
    have "inv (map (\<lambda>r. if job_id r = i then ?f r else r) store, held)"
      by (rule inv_upd [OF inv _ _ _ dh away]) (simp_all add: rows)
    with Some True show ?thesis by (simp add: retry_eq)
  qed
qed

lemma inv_step:
  assumes "inv s" and "valid_event e"
  shows "inv (step s e)"
proof (cases s)
  case (Pair store held)
  with assms show ?thesis
    by (cases e) (simp_all only: inv_enqueue inv_claim inv_finish inv_requeue)
qed

lemma inv_run:
  assumes "list_all valid_event evs"
  shows "inv (run evs)"
  using assms
proof (induction evs rule: rev_induct)
  case Nil
  show ?case by (simp add: run_def inv_def)
next
  case (snoc e evs)
  then have "inv (run evs)" and "valid_event e" by simp_all
  then have "inv (step (run evs) e)" by (rule inv_step)
  then show ?case by (simp add: run_def)
qed

lemmas run_eval = run_def enqueue_eq fits_int64_def pick_job_for_worker_eq eligible_def
  mark_row_def process_job_def handle_failure_def handle_success_def add_seconds_def
  update_job_state_eq retry_eq Let_def t0_def datetime_max_def

section \<open>Only a failure raises the count or writes dead\<close>

text \<open>
  What one event does to a row. Unless the event is the end of a held job's command with a
  failing outcome (an exit status other than 0, or no launch) for the row's id, a row that
  is \<^verbatim>\<open>dead\<close> afterwards was in the table before, unchanged, and no row has more attempts
  than the row of its id had before.
\<close>

lemma kept_row:
  assumes inv: "inv (store, held)" and r: "r' \<in> set store"
  shows "(state r' = ''dead'' \<longrightarrow> r' \<in> set store) \<and>
         (\<forall>r\<in>set store. job_id r = job_id r' \<longrightarrow> attempts r' \<le> attempts r)"
proof -
  from inv have d: "distinct (map job_id store)" by (simp add: inv_def)
  have "attempts r' \<le> attempts x" if "x \<in> set store" "job_id x = job_id r'" for x
    using unique_row [OF d r that] by simp
  with r show ?thesis by blast
qed

lemma changed_row:
  assumes inv: "inv (store, held)" and x: "x \<in> set store"
    and id: "job_id r' = job_id x" and live: "state r' \<noteq> ''dead''"
    and le: "attempts r' \<le> attempts x"
  shows "(state r' = ''dead'' \<longrightarrow> r' \<in> set store) \<and>
         (\<forall>r\<in>set store. job_id r = job_id r' \<longrightarrow> attempts r' \<le> attempts r)"
proof -
  from inv have d: "distinct (map job_id store)" by (simp add: inv_def)
  have "attempts r' \<le> attempts y" if "y \<in> set store" "job_id y = job_id r'" for y
    using unique_row [OF d x that(1)] that(2) id le by simp
  with live show ?thesis by blast
qed

lemma step_raises_only_on_failure:
  assumes inv: "inv (store, held)" and r: "r' \<in> set (fst (step (store, held) e))"
  shows "(\<exists>b now out. e = Finish b now out (job_id r') \<and> out \<noteq> Exited 0) \<or>
         (state r' = ''dead'' \<longrightarrow> r' \<in> set store) \<and>
         (\<forall>r\<in>set store. job_id r = job_id r' \<longrightarrow> attempts r' \<le> attempts r)"
proof (cases e)
  case (Enqueue now i c m)
  let ?n = "\<lparr>job_id = i, command = c, max_retries = (case m of None \<Rightarrow> 3 | Some k \<Rightarrow> k),
             state = ''pending'', attempts = 0, created_at = now, updated_at = now,
             retry_after_time = None\<rparr>"
  from r Enqueue have "r' \<in> set store \<or> r' = ?n \<and> i \<notin> job_id ` set store"
    by (auto simp add: enqueue_eq split: if_splits)
  then show ?thesis
  proof
    assume "r' \<in> set store"
    from kept_row [OF inv this] show ?thesis by blast
  next
    assume n: "r' = ?n \<and> i \<notin> job_id ` set store"
    then have "\<forall>x\<in>set store. job_id x \<noteq> job_id r'" by (metis Job.select_convs(1) imageI)
    with n show ?thesis by simp
  qed
next
  case (Claim now)
  show ?thesis
  proof (cases "oldest (filter (eligible now) store)")
    case None
    with r Claim have "r' \<in> set store" by (simp add: pick_job_for_worker_eq)
    from kept_row [OF inv this] show ?thesis by blast
  next
    case (Some w)
    from r Claim Some
    have "r' \<in> set store \<or>
          (\<exists>x\<in>set store. r' = x\<lparr>state := ''processing'', updated_at := now\<rparr>)"
      by (auto simp add: pick_job_for_worker_eq mark_row_def split: if_splits)
    then show ?thesis
    proof
      assume "r' \<in> set store"
      from kept_row [OF inv this] show ?thesis by blast
    next
      assume "\<exists>x\<in>set store. r' = x\<lparr>state := ''processing'', updated_at := now\<rparr>"
      then obtain x where x: "x \<in> set store"
        "r' = x\<lparr>state := ''processing'', updated_at := now\<rparr>" by blast
      from changed_row [OF inv x(1), of r'] x(2) show ?thesis by simp
    qed
  qed
next
  case (Requeue now i)
  from r Requeue
  have "r' \<in> set store \<or>
        (\<exists>x\<in>set store. r' = x\<lparr>state := ''pending'', attempts := 0, updated_at := now,
                                retry_after_time := None\<rparr>)"
    by (auto simp add: retry_eq split: option.splits if_splits)
  then show ?thesis
  proof
    assume "r' \<in> set store"
    from kept_row [OF inv this] show ?thesis by blast
  next
    assume "\<exists>x\<in>set store. r' = x\<lparr>state := ''pending'', attempts := 0, updated_at := now,
                                   retry_after_time := None\<rparr>"
    then obtain x where x: "x \<in> set store"
      "r' = x\<lparr>state := ''pending'', attempts := 0, updated_at := now,
              retry_after_time := None\<rparr>" by blast
    from changed_row [OF inv x(1), of r'] x(2) show ?thesis by simp
  qed
next
  case (Finish b now out i)
  show ?thesis
  proof (cases "find (\<lambda>j. job_id j = i) held")
    case None
    with r Finish have "r' \<in> set store" by simp
    from kept_row [OF inv this] show ?thesis by blast
  next
    case (Some job)
    then have job: "job \<in> set held" "job_id job = i"
      by (auto simp add: find_Some_iff in_set_conv_nth)
    show ?thesis
    proof (cases "process_job b now out job store")
      case (Inl err)
      with r Finish Some have "r' \<in> set store" by simp
      from kept_row [OF inv this] show ?thesis by blast
    next
      case (Inr store')
      with r Finish Some have mem: "r' \<in> set store'" by simp
      show ?thesis
      proof (cases "out = Exited 0")
        case True
        with Inr have "store' = snd (update_job_state now
            (job\<lparr>state := ''completed'', retry_after_time := None\<rparr>) store)"
          by (simp add: process_job_success)
        with mem have "r' \<in> set store \<or>
            (\<exists>x\<in>set store. job_id x = job_id job \<and>
               r' = x\<lparr>state := ''completed'', attempts := attempts job, updated_at := now,
                       retry_after_time := None\<rparr>)"
          by (auto simp add: update_job_state_eq split: if_splits)
        then show ?thesis
        proof
          assume "r' \<in> set store"
          from kept_row [OF inv this] show ?thesis by blast
        next
          assume "\<exists>x\<in>set store. job_id x = job_id job \<and>
               r' = x\<lparr>state := ''completed'', attempts := attempts job, updated_at := now,
                       retry_after_time := None\<rparr>"
          then obtain x where x: "x \<in> set store" "job_id x = job_id job"
            "r' = x\<lparr>state := ''completed'', attempts := attempts job, updated_at := now,
                    retry_after_time := None\<rparr>" by blast
          from held_row [OF inv job(1) x(1,2)] have "attempts x = attempts job" by simp
          with changed_row [OF inv x(1), of r'] x(3) show ?thesis by simp
        qed
      next
        case False
        from process_job_settles [OF Inr] obtain k
          where k: "store' = snd (update_job_state now k store)" and s: "settled job k" by blast
        from s job(2) have "job_id k = i" by (simp add: settled_def)
        with mem k have "r' \<in> set store \<or> job_id r' = i"
          by (auto simp add: update_job_state_eq split: if_splits)
        then show ?thesis
        proof
          assume "r' \<in> set store"
          from kept_row [OF inv this] show ?thesis by blast
        next
          assume "job_id r' = i"
          with Finish False show ?thesis by simp
        qed
      qed
    qed
  qed
qed

section \<open>The retry limit\<close>

text \<open>
  C3. Start from the empty table and let enqueue (with \<^verbatim>\<open>max_retries\<close> at least 1, or the
  default 3), claim, the end of a held job's command (any outcome, any \<^verbatim>\<open>retry_base\<close>) and
  the administrative requeue happen in any order. Then every row of the table and every job
  a worker holds has \<^verbatim>\<open>attempts\<close> at most \<^verbatim>\<open>max_retries\<close>, and is \<^verbatim>\<open>dead\<close> exactly when
  \<^verbatim>\<open>attempts\<close> has reached \<^verbatim>\<open>max_retries\<close>. And the limit is reached by failures only:
  whatever event comes next, unless it is the end of a command with a failing outcome for
  the row's id, a row that is \<^verbatim>\<open>dead\<close> after it was in the table before, unchanged, and no
  row has more attempts than the row of its id had before.
\<close>

theorem attempts_bounded_dead_iff_exhausted:
  assumes "list_all valid_event evs"
  shows "(\<forall>r\<in>set (fst (run evs)) \<union> set (snd (run evs)).
            int (attempts r) \<le> max_retries r \<and>
            (state r = ''dead'' \<longleftrightarrow> max_retries r \<le> int (attempts r))) \<and>
         (\<forall>e. \<forall>r'\<in>set (fst (step (run evs) e)).
            (\<exists>b now out. e = Finish b now out (job_id r') \<and> out \<noteq> Exited 0) \<or>
            (state r' = ''dead'' \<longrightarrow> r' \<in> set (fst (run evs))) \<and>
            (\<forall>r\<in>set (fst (run evs)). job_id r = job_id r' \<longrightarrow> attempts r' \<le> attempts r))"
proof -
  from inv_run [OF assms] have inv: "inv (fst (run evs), snd (run evs))" by simp
  then have rows: "\<forall>r\<in>set (fst (run evs)). row_ok r"
    and held: "\<forall>j\<in>set (snd (run evs)). held_ok (fst (run evs)) j"
    by (simp_all add: inv_def)
  from rows have "\<forall>r\<in>set (fst (run evs)).
      int (attempts r) \<le> max_retries r \<and>
      (state r = ''dead'' \<longleftrightarrow> max_retries r \<le> int (attempts r))"
    by (simp add: row_ok_def)
  moreover from held have "\<forall>r\<in>set (snd (run evs)).
      int (attempts r) \<le> max_retries r \<and>
      (state r = ''dead'' \<longleftrightarrow> max_retries r \<le> int (attempts r))"
    by (auto simp add: held_ok_def)
  ultimately have first: "\<forall>r\<in>set (fst (run evs)) \<union> set (snd (run evs)).
      int (attempts r) \<le> max_retries r \<and>
      (state r = ''dead'' \<longleftrightarrow> max_retries r \<le> int (attempts r))" by blast
  have "(\<exists>b now out. e = Finish b now out (job_id r') \<and> out \<noteq> Exited 0) \<or>
        (state r' = ''dead'' \<longrightarrow> r' \<in> set (fst (run evs))) \<and>
        (\<forall>r\<in>set (fst (run evs)). job_id r = job_id r' \<longrightarrow> attempts r' \<le> attempts r)"
    if "r' \<in> set (fst (step (run evs) e))" for e r'
    using step_raises_only_on_failure [OF inv, of r' e] that by simp
  with first show ?thesis by blast
qed

text \<open>
  A job with one retry is claimed; its command exits with status 1 and the row is dead with
  one attempt; a second job is enqueued and held.
\<close>

theorem attempts_bounded_dead_iff_exhausted_witness:
  "list_all valid_event evs_claimed \<and> list_all valid_event evs_dead \<and>
   step (run evs_claimed) (Finish 2 (t0 + 2000000) (Exited 1) ''a'') =
     ([\<lparr>job_id = ''a'', command = ''exit 1'', max_retries = 1, state = ''dead'', attempts = 1,
         created_at = t0, updated_at = t0 + 2000000, retry_after_time = None\<rparr>], []) \<and>
   run evs_dead =
     ([\<lparr>job_id = ''a'', command = ''exit 1'', max_retries = 1, state = ''dead'', attempts = 1,
         created_at = t0, updated_at = t0 + 2000000, retry_after_time = None\<rparr>,
       \<lparr>job_id = ''b'', command = ''true'', max_retries = 3, state = ''processing'',
         attempts = 0, created_at = t0 + 3000000, updated_at = t0 + 4000000,
         retry_after_time = None\<rparr>],
      [\<lparr>job_id = ''b'', command = ''true'', max_retries = 3, state = ''processing'',
         attempts = 0, created_at = t0 + 3000000, updated_at = t0 + 4000000,
         retry_after_time = None\<rparr>])"
proof -
  have v: "list_all valid_event evs_claimed" "list_all valid_event evs_dead"
    by (simp_all add: evs_claimed_def evs_dead_def)
  from attempts_bounded_dead_iff_exhausted [OF v(1)] attempts_bounded_dead_iff_exhausted [OF v(2)]
    v
  show ?thesis
    by (simp add: evs_claimed_def evs_dead_def run_eval)
qed

section \<open>The retry time\<close>

lemma retry_ok_step:
  assumes ok: "\<forall>r\<in>set store. retry_ok r"
  shows "\<forall>r\<in>set (fst (step (store, held) e)). retry_ok r"
proof (cases e)
  case (Enqueue now i c m)
  with ok show ?thesis by (auto simp add: enqueue_eq retry_ok_def)
next
  case (Claim now)
  show ?thesis
  proof (cases "oldest (filter (eligible now) store)")
    case None
    with ok Claim show ?thesis by (simp add: pick_job_for_worker_eq)
  next
    case (Some r)
    have "retry_ok (x\<lparr>state := ''processing'', updated_at := now\<rparr>)" if "x \<in> set store" for x
      using ok that by (auto simp add: retry_ok_def)
    with ok Claim Some show ?thesis
      by (auto simp add: pick_job_for_worker_eq mark_row_def)
  qed
next
  case (Finish b now out i)
  show ?thesis
  proof (cases "find (\<lambda>j. job_id j = i) held")
    case None
    with ok Finish show ?thesis by simp
  next
    case (Some job)
    show ?thesis
    proof (cases "process_job b now out job store")
      case (Inl err)
      with ok Finish Some show ?thesis by simp
    next
      case (Inr store')
      from process_job_settles [OF Inr] obtain k
        where k: "store' = snd (update_job_state now k store)" and s: "settled job k" by blast
      from s have "retry_ok (x\<lparr>state := state k, attempts := attempts k, updated_at := now,
                               retry_after_time := retry_after_time k\<rparr>)" for x
        by (auto simp add: retry_ok_def settled_def)
      with ok k have "\<forall>r\<in>set store'. retry_ok r"
        by (auto simp add: update_job_state_eq)
      with Finish Some Inr show ?thesis by simp
    qed
  qed
next
  case (Requeue now i)
  have "retry_ok (x\<lparr>state := ''pending'', attempts := 0, updated_at := now,
                    retry_after_time := None\<rparr>)" for x
    by (simp add: retry_ok_def)
  with ok Requeue show ?thesis
    by (auto simp add: retry_eq split: option.splits)
qed

lemma retry_ok_run: "\<forall>r\<in>set (fst (run evs)). retry_ok r"
proof (induction evs rule: rev_induct)
  case Nil
  show ?case by (simp add: run_def)
next
  case (snoc e evs)
  from retry_ok_step [OF snoc.IH, of "snd (run evs)" e] show ?case
    by (simp add: run_def)
qed

lemma pick_keeps_retry_after_time:
  "map retry_after_time (snd (pick_job_for_worker now store)) = map retry_after_time store"
  by (cases "oldest (filter (eligible now) store)")
     (simp_all add: pick_job_for_worker_eq mark_row_def comp_def if_distrib cong: if_cong)

text \<open>
  C4, amended. In every state the system reaches, a row with a \<^verbatim>\<open>retry_after_time\<close> is
  \<^verbatim>\<open>pending\<close> or \<^verbatim>\<open>processing\<close> and has failed at least once: completed and dead rows have
  none. Claiming writes \<^verbatim>\<open>state\<close> and \<^verbatim>\<open>updated_at\<close> only and leaves every stored
  \<^verbatim>\<open>retry_after_time\<close> as it was.
\<close>

theorem retry_after_time_only_after_failure:
  "(\<forall>r\<in>set (fst (run evs)).
      retry_after_time r \<noteq> None \<longrightarrow>
      (state r = ''pending'' \<or> state r = ''processing'') \<and> 0 < attempts r) \<and>
   map retry_after_time (snd (pick_job_for_worker now store)) = map retry_after_time store"
  using retry_ok_run [of evs] pick_keeps_retry_after_time [of now store]
  by (auto simp add: retry_ok_def)

text \<open>After its first failure the row is pending with a retry time four seconds on.\<close>

theorem retry_after_time_only_after_failure_witness:
  "run evs_fail =
     ([\<lparr>job_id = ''a'', command = ''exit 1'', max_retries = 3, state = ''pending'', attempts = 1,
         created_at = t0, updated_at = t0 + 2000000,
         retry_after_time = Some (t0 + 4000000)\<rparr>], [])"
  using retry_after_time_only_after_failure [of evs_fail 0 "[]"]
  by (simp add: evs_fail_def run_eval)

text \<open>
  Claimed again at its retry time, the row is \<^verbatim>\<open>processing\<close> and still carries that retry
  time, in the table and in the object the worker holds.
\<close>

theorem claim_keeps_retry_after_time_counterexample:
  "run evs_reclaim =
     ([\<lparr>job_id = ''a'', command = ''exit 1'', max_retries = 3, state = ''processing'',
         attempts = 1, created_at = t0, updated_at = t0 + 4000000,
         retry_after_time = Some (t0 + 4000000)\<rparr>],
      [\<lparr>job_id = ''a'', command = ''exit 1'', max_retries = 3, state = ''processing'',
         attempts = 1, created_at = t0, updated_at = t0 + 4000000,
         retry_after_time = Some (t0 + 4000000)\<rparr>])"
  by (simp add: evs_reclaim_def run_eval)

end
